theory Spec2Isabelle
  imports
    Main
    "HOL-Library.AList"
    "HOL-Library.Char_ord"
    "HOL-Library.List_Lexorder"
    "HOL-Library.Product_Lexorder"
begin

section \<open>Strings\<close>

text \<open>
  Python strings are modelled as \<open>string\<close> and restricted to ASCII: \<open>lower\<close> folds
  \<open>A\<close>..\<open>Z\<close> only, and \<open>strip\<close> removes the ASCII characters for which
  \<^verbatim>\<open>str.isspace\<close> holds (codes 9-13, 28-31 and 32). Strings are compared as Python
  compares them: lexicographically, character by character, a proper prefix first.
\<close>

definition lower_char :: "char \<Rightarrow> char" where
  "lower_char c =
     (case map_of (zip ''ABCDEFGHIJKLMNOPQRSTUVWXYZ'' ''abcdefghijklmnopqrstuvwxyz'') c of
        None \<Rightarrow> c
      | Some d \<Rightarrow> d)"

definition lower :: "string \<Rightarrow> string" where
  "lower s = map lower_char s"

definition is_space :: "char \<Rightarrow> bool" where
  "is_space c =
     (c \<in> set [CHR 0x09, CHR 0x0A, CHR 0x0B, CHR 0x0C, CHR 0x0D,
                CHR 0x1C, CHR 0x1D, CHR 0x1E, CHR 0x1F, CHR '' ''])"

definition strip :: "string \<Rightarrow> string" where
  "strip s = rev (dropWhile is_space (rev (dropWhile is_space s)))"

text \<open>\<^verbatim>\<open>s.split(sep)\<close> for a one-character separator: \<open>k\<close> separators give \<open>k + 1\<close> parts.\<close>

fun split :: "char \<Rightarrow> string \<Rightarrow> string list" where
  "split sep [] = [[]]"
| "split sep (c # cs) =
     (if c = sep then [] # split sep cs
      else (case split sep cs of
              [] \<Rightarrow> [[c]]
            | w # ws \<Rightarrow> (c # w) # ws))"

definition startswith :: "string \<Rightarrow> string \<Rightarrow> bool" where
  "startswith s pre = (take (length pre) s = pre)"

text \<open>\<^verbatim>\<open>s.rfind(c)\<close>: the index of the last occurrence, \<open>None\<close> for Python's \<open>-1\<close>.\<close>

fun rfind :: "char \<Rightarrow> string \<Rightarrow> nat option" where
  "rfind c [] = None"
| "rfind c (x # xs) =
     (case rfind c xs of
        Some i \<Rightarrow> Some (Suc i)
      | None \<Rightarrow> if x = c then Some 0 else None)"

text \<open>
  \<^verbatim>\<open>PurePath.suffix\<close> of a final path component (pathlib of Python 3.8 to 3.13):
  with \<open>i = name.rfind('.')\<close>, the result is \<open>name[i:]\<close> if \<open>0 < i < len(name) - 1\<close>
  and the empty string otherwise.
\<close>

definition suffix :: "string \<Rightarrow> string" where
  "suffix nm =
     (case rfind CHR ''.'' nm of
        None \<Rightarrow> []
      | Some i \<Rightarrow> if 0 < i \<and> i < length nm - 1 then drop i nm else [])"

section \<open>The filesystem\<close>

text \<open>
  A path is the list of its components; \<open>d @ [n]\<close> is \<^verbatim>\<open>d / n\<close> and \<open>last p\<close> is
  \<^verbatim>\<open>p.name\<close>. A filesystem is an association list from paths to the node found there
  without following a final link (what \<^verbatim>\<open>lstat\<close> sees); its order is the order in
  which \<^verbatim>\<open>iterdir\<close> enumerates. Every path is accessible (no permission errors), the
  directories named in the configuration are spelled without links in their inner
  components, and link targets are absolute paths. Links are POSIX symbolic links.
\<close>

type_synonym path = "string list"

datatype node = RegularFile | Directory | Symlink path

type_synonym filesystem = "(path \<times> node) list"

datatype os_error =
    FileExistsError
  | FileNotFoundError
  | NotADirectoryError
  | IsADirectoryError
  | DirectoryNotEmpty
  | PermissionError

definition lstat :: "filesystem \<Rightarrow> path \<Rightarrow> node option" where
  "lstat fs p = map_of fs p"

text \<open>Following final links, at most \<open>n\<close> nodes deep; a longer chain or a loop is \<open>ELOOP\<close>.\<close>

fun stat_fuel :: "nat \<Rightarrow> filesystem \<Rightarrow> path \<Rightarrow> node option" where
  "stat_fuel 0 fs p = None"
| "stat_fuel (Suc n) fs p =
     (case lstat fs p of
        None \<Rightarrow> None
      | Some (Symlink t) \<Rightarrow> stat_fuel n fs t
      | Some RegularFile \<Rightarrow> Some RegularFile
      | Some Directory \<Rightarrow> Some Directory)"

definition stat :: "filesystem \<Rightarrow> path \<Rightarrow> node option" where
  "stat fs p = stat_fuel (Suc 40) fs p"

text \<open>
  The \<^verbatim>\<open>pathlib.Path\<close> queries. \<^verbatim>\<open>exists\<close>, \<^verbatim>\<open>is_dir\<close> and \<^verbatim>\<open>is_file\<close> follow
  links and answer \<open>False\<close> on a missing target or a loop; \<^verbatim>\<open>is_symlink\<close> does not follow.
\<close>

definition path_exists :: "filesystem \<Rightarrow> path \<Rightarrow> bool" where
  "path_exists fs p = (stat fs p \<noteq> None)"

definition path_is_symlink :: "filesystem \<Rightarrow> path \<Rightarrow> bool" where
  "path_is_symlink fs p =
     (case lstat fs p of Some (Symlink t) \<Rightarrow> True | _ \<Rightarrow> False)"

definition path_is_dir :: "filesystem \<Rightarrow> path \<Rightarrow> bool" where
  "path_is_dir fs p = (stat fs p = Some Directory)"

definition path_is_file :: "filesystem \<Rightarrow> path \<Rightarrow> bool" where
  "path_is_file fs p = (stat fs p = Some RegularFile)"

definition path_name :: "path \<Rightarrow> string" where
  "path_name p = (if p = [] then [] else last p)"

definition children :: "filesystem \<Rightarrow> path \<Rightarrow> string list" where
  "children fs d = remdups [last p. p \<leftarrow> map fst fs, p \<noteq> [], butlast p = d]"

definition iterdir :: "filesystem \<Rightarrow> path \<Rightarrow> os_error + path list" where
  "iterdir fs d =
     (if path_is_dir fs d then Inr (map (\<lambda>n. d @ [n]) (children fs d))
      else if path_exists fs d then Inl NotADirectoryError
      else Inl FileNotFoundError)"

text \<open>
  \<^verbatim>\<open>os.symlink(src, dst, target_is_directory)\<close>: the flag is ignored on POSIX. It fails
  when something is at \<open>dst\<close> already or when the directory that is to hold \<open>dst\<close> is
  missing.
\<close>

definition os_symlink :: "path \<Rightarrow> path \<Rightarrow> bool \<Rightarrow> filesystem \<Rightarrow> os_error + filesystem" where
  "os_symlink source dst target_is_directory fs =
     (if lstat fs dst \<noteq> None then Inl FileExistsError
      else if \<not> path_exists fs (butlast dst) then Inl FileNotFoundError
      else if \<not> path_is_dir fs (butlast dst) then Inl NotADirectoryError
      else Inr (AList.update dst (Symlink source) fs))"

definition os_rmdir :: "path \<Rightarrow> filesystem \<Rightarrow> os_error + filesystem" where
  "os_rmdir p fs =
     (case lstat fs p of
        None \<Rightarrow> Inl FileNotFoundError
      | Some Directory \<Rightarrow>
          if children fs p = [] then Inr (AList.delete p fs) else Inl DirectoryNotEmpty
      | Some RegularFile \<Rightarrow> Inl NotADirectoryError
      | Some (Symlink t) \<Rightarrow> Inl NotADirectoryError)"

definition os_unlink :: "path \<Rightarrow> filesystem \<Rightarrow> os_error + filesystem" where
  "os_unlink p fs =
     (case lstat fs p of
        None \<Rightarrow> Inl FileNotFoundError
      | Some Directory \<Rightarrow> Inl IsADirectoryError
      | Some RegularFile \<Rightarrow> Inr (AList.delete p fs)
      | Some (Symlink t) \<Rightarrow> Inr (AList.delete p fs))"

section \<open>Configuration, host and messages\<close>

text \<open>
  The configuration dictionary with its three keys; the two directories are held as
  paths already, \<open>mod_extensions\<close> as the raw string (\<open>None\<close> for a null value).
\<close>

record config =
  mods_source_dir :: path
  game_mods_dir :: path
  mod_extensions :: "string option"

record completed_process =
  returncode :: int
  stdout :: string
  stderr :: string

text \<open>
  The host: what \<^verbatim>\<open>is_windows()\<close> answers, and what running
  \<^verbatim>\<open>cmd /c mklink [/J] dest src\<close> does there (an external program: a parameter).
\<close>

record host =
  is_windows :: bool
  run_mklink :: "bool \<Rightarrow> path \<Rightarrow> path \<Rightarrow> filesystem \<Rightarrow> completed_process \<times> filesystem"

text \<open>The messages the program builds, one constructor for each format string.\<close>

datatype message =
    OK
  | Target_already_exists path
  | Source_not_found path
  | Already_removed
  | Not_a_link_or_not_empty
  | Exception_text os_error
  | Tool_output string
  | No_installed_mods_to_save
  | Preset_saved string nat

datatype log_line =
    Skipped_not_in_source string
  | Outcome string bool message

record mod_item =
  name :: string
  src :: path
  dest :: path
  is_dir :: bool
  installed :: bool

section \<open>Helpers of the program\<close>

definition parse_extensions :: "config \<Rightarrow> bool \<times> string list" where
  "parse_extensions cfg =
     (let exts_raw = strip (case mod_extensions cfg of None \<Rightarrow> [] | Some s \<Rightarrow> s) in
      if exts_raw = [] then (True, [])
      else (False,
            [if startswith e ''.'' then strip (lower e) else ''.'' @ strip (lower e).
               e \<leftarrow> split CHR '','' exts_raw, strip e \<noteq> []]))"

definition mklink :: "host \<Rightarrow> path \<Rightarrow> path \<Rightarrow> filesystem \<Rightarrow> (bool \<times> message) \<times> filesystem" where
  "mklink h source dst fs =
     (if path_exists fs dst \<or> path_is_symlink fs dst then ((False, Target_already_exists dst), fs)
      else if \<not> path_exists fs source then ((False, Source_not_found source), fs)
      else if is_windows h then
        (case run_mklink h (path_is_dir fs source) dst source fs of
           (res, fs') \<Rightarrow>
             if returncode res \<noteq> 0 then
               ((False,
                 Tool_output
                   (if strip (stderr res) \<noteq> [] then strip (stderr res)
                    else if strip (stdout res) \<noteq> [] then strip (stdout res)
                    else ''mklink error'')),
                fs')
             else ((True, OK), fs'))
      else
        (case os_symlink source dst (path_is_dir fs source) fs of
           Inl e \<Rightarrow> ((False, Exception_text e), fs)
         | Inr fs' \<Rightarrow> ((True, OK), fs')))"

definition unlink_path :: "path \<Rightarrow> filesystem \<Rightarrow> (bool \<times> message) \<times> filesystem" where
  "unlink_path p fs =
     (if \<not> path_exists fs p \<and> \<not> path_is_symlink fs p then ((False, Already_removed), fs)
      else if path_is_dir fs p \<and> \<not> path_is_symlink fs p then
        (case os_rmdir p fs of
           Inl e \<Rightarrow> ((False, Not_a_link_or_not_empty), fs)
         | Inr fs' \<Rightarrow> ((True, OK), fs'))
      else
        (case os_unlink p fs of
           Inl e \<Rightarrow> ((False, Exception_text e), fs)
         | Inr fs' \<Rightarrow> ((True, OK), fs')))"

section \<open>The catalog\<close>

definition mod_at :: "filesystem \<Rightarrow> path \<Rightarrow> path \<Rightarrow> bool \<Rightarrow> mod_item" where
  "mod_at fs dst_dir p dir =
     (let dst = dst_dir @ [path_name p] in
      \<lparr>name = path_name p, src = p, dest = dst, is_dir = dir,
       installed = (path_exists fs dst \<or> path_is_symlink fs dst)\<rparr>)"

fun discover_loop :: "filesystem \<Rightarrow> path \<Rightarrow> bool \<Rightarrow> string list \<Rightarrow> path list \<Rightarrow> mod_item list" where
  "discover_loop fs dst_dir show_all exts [] = []"
| "discover_loop fs dst_dir show_all exts (p # ps) =
     (if path_is_file fs p then
        (if show_all \<or> lower (suffix (path_name p)) \<in> set exts
         then [mod_at fs dst_dir p False] else [])
      else if path_is_dir fs p then [mod_at fs dst_dir p True]
      else [])
     @ discover_loop fs dst_dir show_all exts ps"

text \<open>The condition under which the loop above appends an entry for \<open>p\<close>.\<close>

definition included :: "filesystem \<Rightarrow> bool \<Rightarrow> string list \<Rightarrow> path \<Rightarrow> bool" where
  "included fs show_all exts p =
     (if path_is_file fs p then show_all \<or> lower (suffix (path_name p)) \<in> set exts
      else path_is_dir fs p)"

definition sort_entries :: "filesystem \<Rightarrow> path list \<Rightarrow> path list" where
  "sort_entries fs ps = sort_key (\<lambda>x. (path_is_file fs x, lower (path_name x))) ps"

definition discover_mods :: "config \<Rightarrow> filesystem \<Rightarrow> os_error + mod_item list" where
  "discover_mods cfg fs =
     (let src_dir = mods_source_dir cfg;
          dst_dir = game_mods_dir cfg;
          (show_all, exts) = parse_extensions cfg
      in if \<not> path_exists fs src_dir then Inr []
         else (case iterdir fs src_dir of
                 Inl e \<Rightarrow> Inl e
               | Inr ps \<Rightarrow> Inr (discover_loop fs dst_dir show_all exts (sort_entries fs ps))))"

definition list_installed_mods :: "config \<Rightarrow> filesystem \<Rightarrow> os_error + mod_item list" where
  "list_installed_mods cfg fs =
     (case discover_mods cfg fs of
        Inl e \<Rightarrow> Inl e
      | Inr items \<Rightarrow> Inr [m \<leftarrow> items. installed m])"

definition list_broken_links :: "config \<Rightarrow> filesystem \<Rightarrow> os_error + mod_item list" where
  "list_broken_links cfg fs =
     (case discover_mods cfg fs of
        Inl e \<Rightarrow> Inl e
      | Inr items \<Rightarrow> Inr [m \<leftarrow> items. installed m \<and> \<not> path_exists fs (src m)])"

definition apply_mod :: "host \<Rightarrow> mod_item \<Rightarrow> filesystem \<Rightarrow> (bool \<times> message) \<times> filesystem" where
  "apply_mod h m fs = mklink h (src m) (dest m) fs"

definition deactivate_mod :: "mod_item \<Rightarrow> filesystem \<Rightarrow> (bool \<times> message) \<times> filesystem" where
  "deactivate_mod m fs = unlink_path (dest m) fs"

section \<open>Presets\<close>

text \<open>
  The preset dictionary keeps insertion order, as a Python \<^verbatim>\<open>dict\<close> does: an
  association list whose update replaces in place or appends. The preset file holds such
  a dictionary or is absent or unreadable (\<open>None\<close>: \<^verbatim>\<open>load_json\<close> answers the default);
  writing it raises when the file cannot be written.
\<close>

type_synonym presets = "(string \<times> string list) list"

record storage =
  presets_file :: "presets option"
  writable :: bool

definition load_presets :: "storage \<Rightarrow> presets" where
  "load_presets st = (case presets_file st of None \<Rightarrow> [] | Some ps \<Rightarrow> ps)"

definition save_presets :: "presets \<Rightarrow> storage \<Rightarrow> os_error + storage" where
  "save_presets ps st =
     (if writable st then Inr (st\<lparr>presets_file := Some ps\<rparr>) else Inl PermissionError)"

text \<open>\<^verbatim>\<open>presets.get(name, [])\<close>\<close>

definition preset_get :: "presets \<Rightarrow> string \<Rightarrow> string list" where
  "preset_get ps nm = (case map_of ps nm of None \<Rightarrow> [] | Some l \<Rightarrow> l)"

definition save_preset_from_installed ::
    "config \<Rightarrow> string \<Rightarrow> filesystem \<Rightarrow> storage \<Rightarrow> os_error + ((bool \<times> message) \<times> storage)" where
  "save_preset_from_installed cfg nm fs st =
     (let ps = load_presets st in
      case list_installed_mods cfg fs of
        Inl e \<Rightarrow> Inl e
      | Inr inst \<Rightarrow>
          if inst = [] then Inr ((False, No_installed_mods_to_save), st)
          else (case save_presets (AList.update nm (map name inst) ps) st of
                  Inl e \<Rightarrow> Inl e
                | Inr st' \<Rightarrow> Inr ((True, Preset_saved nm (length inst)), st')))"

text \<open>\<^verbatim>\<open>{m.name: m for m in items}\<close>: of two items with one name the later one stays.\<close>

definition mods_dict :: "mod_item list \<Rightarrow> string \<Rightarrow> mod_item option" where
  "mods_dict items = map_of (rev (map (\<lambda>m. (name m, m)) items))"

fun apply_loop ::
    "host \<Rightarrow> (string \<Rightarrow> mod_item option) \<Rightarrow> string list \<Rightarrow> nat \<Rightarrow> nat \<Rightarrow> log_line list \<Rightarrow>
     filesystem \<Rightarrow> (nat \<times> nat \<times> log_line list) \<times> filesystem" where
  "apply_loop h mods [] ok fail msgs fs = ((ok, fail, msgs), fs)"
| "apply_loop h mods (nm # names) ok fail msgs fs =
     (case mods nm of
        None \<Rightarrow> apply_loop h mods names ok fail (msgs @ [Skipped_not_in_source nm]) fs
      | Some m \<Rightarrow>
          if installed m then apply_loop h mods names ok fail msgs fs
          else (case apply_mod h m fs of
                  ((success, msg), fs') \<Rightarrow>
                    apply_loop h mods names
                      (if success then ok + 1 else ok)
                      (if success then fail else fail + 1)
                      (msgs @ [Outcome nm success msg]) fs'))"

definition apply_preset ::
    "host \<Rightarrow> config \<Rightarrow> string \<Rightarrow> storage \<Rightarrow> filesystem \<Rightarrow>
     os_error + ((nat \<times> nat \<times> log_line list) \<times> filesystem)" where
  "apply_preset h cfg nm st fs =
     (let ps = load_presets st in
      case discover_mods cfg fs of
        Inl e \<Rightarrow> Inl e
      | Inr items \<Rightarrow> Inr (apply_loop h (mods_dict items) (preset_get ps nm) 0 0 [] fs))"

fun deactivate_loop ::
    "(string \<Rightarrow> mod_item option) \<Rightarrow> string list \<Rightarrow> nat \<Rightarrow> nat \<Rightarrow> log_line list \<Rightarrow>
     filesystem \<Rightarrow> (nat \<times> nat \<times> log_line list) \<times> filesystem" where
  "deactivate_loop mods [] ok fail msgs fs = ((ok, fail, msgs), fs)"
| "deactivate_loop mods (nm # names) ok fail msgs fs =
     (case mods nm of
        None \<Rightarrow> deactivate_loop mods names ok fail msgs fs
      | Some m \<Rightarrow>
          if \<not> installed m then deactivate_loop mods names ok fail msgs fs
          else (case deactivate_mod m fs of
                  ((success, msg), fs') \<Rightarrow>
                    deactivate_loop mods names
                      (if success then ok + 1 else ok)
                      (if success then fail else fail + 1)
                      (msgs @ [Outcome nm success msg]) fs'))"

definition deactivate_preset ::
    "config \<Rightarrow> string \<Rightarrow> storage \<Rightarrow> filesystem \<Rightarrow>
     os_error + ((nat \<times> nat \<times> log_line list) \<times> filesystem)" where
  "deactivate_preset cfg nm st fs =
     (let ps = load_presets st in
      case discover_mods cfg fs of
        Inl e \<Rightarrow> Inl e
      | Inr items \<Rightarrow> Inr (deactivate_loop (mods_dict items) (preset_get ps nm) 0 0 [] fs))"

section \<open>The preset toggle of the menu\<close>

text \<open>
  The part of \<^verbatim>\<open>menu_presets\<close> that toggles: \<open>installed_set\<close> is taken from one
  \<^verbatim>\<open>discover_mods\<close> before the command is read, and every number of the command is
  decided against it.
\<close>

datatype toggle_report =
    Deactivated nat nat "log_line list"
  | Installed nat nat "log_line list"

definition installed_set :: "mod_item list \<Rightarrow> string set" where
  "installed_set items = set (map name [m \<leftarrow> items. installed m])"

definition all_on :: "string set \<Rightarrow> string list \<Rightarrow> bool" where
  "all_on inst mods = (mods \<noteq> [] \<and> list_all (\<lambda>nm. nm \<in> inst) mods)"

definition toggle_preset ::
    "host \<Rightarrow> config \<Rightarrow> storage \<Rightarrow> presets \<Rightarrow> string set \<Rightarrow> string \<Rightarrow> filesystem \<Rightarrow>
     os_error + (toggle_report \<times> filesystem)" where
  "toggle_preset h cfg st ps inst nm fs =
     (let mods = preset_get ps nm in
      if all_on inst mods then
        (case deactivate_preset cfg nm st fs of
           Inl e \<Rightarrow> Inl e
         | Inr ((okc, errc, msgs), fs') \<Rightarrow> Inr (Deactivated okc errc msgs, fs'))
      else
        (case apply_preset h cfg nm st fs of
           Inl e \<Rightarrow> Inl e
         | Inr ((okc, errc, msgs), fs') \<Rightarrow> Inr (Installed okc errc msgs, fs')))"

fun toggle_loop ::
    "host \<Rightarrow> config \<Rightarrow> storage \<Rightarrow> presets \<Rightarrow> string list \<Rightarrow> string set \<Rightarrow> nat list \<Rightarrow>
     filesystem \<Rightarrow> os_error + (toggle_report list \<times> filesystem)" where
  "toggle_loop h cfg st ps page_keys inst [] fs = Inr ([], fs)"
| "toggle_loop h cfg st ps page_keys inst (num # nums) fs =
     (if 1 \<le> num \<and> num \<le> length page_keys then
        (case toggle_preset h cfg st ps inst (page_keys ! (num - 1)) fs of
           Inl e \<Rightarrow> Inl e
         | Inr (r, fs') \<Rightarrow>
             (case toggle_loop h cfg st ps page_keys inst nums fs' of
                Inl e \<Rightarrow> Inl e
              | Inr (rs, fs'') \<Rightarrow> Inr (r # rs, fs'')))
      else toggle_loop h cfg st ps page_keys inst nums fs)"

section \<open>Notions used in the statements\<close>

text \<open>The name a line of the log is about.\<close>

fun log_name :: "log_line \<Rightarrow> string" where
  "log_name (Skipped_not_in_source nm) = nm"
| "log_name (Outcome nm success msg) = nm"

text \<open>
  What is assumed of the \<^verbatim>\<open>mklink\<close> tool of a Windows host where a statement needs it:
  when it exits with code 0 something is at the destination afterwards, and it removes
  nothing.
\<close>

definition mklink_tool_creates :: "host \<Rightarrow> bool" where
  "mklink_tool_creates h =
     (\<forall>junction dst source fs.
        (returncode (fst (run_mklink h junction dst source fs)) = 0 \<longrightarrow>
           lstat (snd (run_mklink h junction dst source fs)) dst \<noteq> None) \<and>
        (\<forall>p. lstat fs p \<noteq> None \<longrightarrow>
           lstat (snd (run_mklink h junction dst source fs)) p \<noteq> None))"

text \<open>
  The extension filter as the specification words it, for comparison with
  \<open>parse_extensions\<close>: the entries of the comma-separated string that are not blank,
  each lowercased, without the whitespace around it, and with one leading dot added when
  it has none.
\<close>

definition spec_normalize_extension :: "string \<Rightarrow> string" where
  "spec_normalize_extension e =
     (let s = strip (lower e) in if startswith s ''.'' then s else ''.'' @ s)"

definition spec_extension_filter :: "string \<Rightarrow> string list" where
  "spec_extension_filter raw =
     [spec_normalize_extension e. e \<leftarrow> split CHR '','' (strip raw), strip e \<noteq> []]"

section \<open>Concrete hosts, filesystems and configurations\<close>

definition posix :: host where
  "posix = \<lparr>is_windows = False,
            run_mklink = (\<lambda>junction dst source fs.
               (\<lparr>returncode = 1, stdout = [], stderr = []\<rparr>, fs))\<rparr>"

text \<open>A source directory with the directory \<open>ModA\<close> and the file \<open>modb.esp\<close>; an empty game directory.\<close>

definition fs_mixed :: filesystem where
  "fs_mixed =
     [([''mods''], Directory),
      ([''game''], Directory),
      ([''mods'', ''modb.esp''], RegularFile),
      ([''mods'', ''ModA''], Directory)]"

definition cfg_esp :: config where
  "cfg_esp = \<lparr>mods_source_dir = [''mods''], game_mods_dir = [''game''],
              mod_extensions = Some ''esp''\<rparr>"

text \<open>
  The same source with more in it: a file the filter leaves out, a dangling link, and a
  game directory that holds a link to \<open>ModA\<close> and a link whose source is gone.
\<close>

definition fs_linked :: filesystem where
  "fs_linked =
     [([''mods''], Directory),
      ([''game''], Directory),
      ([''mods'', ''modb.esp''], RegularFile),
      ([''mods'', ''ModA''], Directory),
      ([''mods'', ''notes.txt''], RegularFile),
      ([''mods'', ''gone''], Symlink [''nowhere'']),
      ([''game'', ''ModA''], Symlink [''mods'', ''ModA'']),
      ([''game'', ''old.esp''], Symlink [''mods'', ''old.esp''])]"

text \<open>A game directory into which a real directory with a file in it was copied.\<close>

definition fs_real :: filesystem where
  "fs_real =
     [([''mods''], Directory),
      ([''game''], Directory),
      ([''game'', ''RealMod''], Directory),
      ([''game'', ''RealMod'', ''data.pak''], RegularFile)]"

definition fs_empty :: filesystem where
  "fs_empty = [([''mods''], Directory), ([''game''], Directory)]"

text \<open>The catalog entries of these filesystems.\<close>

definition item_ModA :: mod_item where
  "item_ModA = \<lparr>name = ''ModA'', src = [''mods'', ''ModA''], dest = [''game'', ''ModA''],
                is_dir = True, installed = False\<rparr>"

definition item_modb :: mod_item where
  "item_modb = \<lparr>name = ''modb.esp'', src = [''mods'', ''modb.esp''],
                dest = [''game'', ''modb.esp''], is_dir = False, installed = False\<rparr>"

definition items_mixed :: "mod_item list" where
  "items_mixed = [item_ModA, item_modb]"

definition items_linked :: "mod_item list" where
  "items_linked = [item_ModA\<lparr>installed := True\<rparr>, item_modb]"

text \<open>A Windows host whose tool makes the link as \<open>os_symlink\<close> does.\<close>

definition windows_host :: host where
  "windows_host = \<lparr>is_windows = True,
     run_mklink = (\<lambda>junction dst source fs.
        (case os_symlink source dst junction fs of
           Inl e \<Rightarrow> (\<lparr>returncode = 1, stdout = [], stderr = ''Cannot create a file''\<rparr>, fs)
         | Inr fs' \<Rightarrow> (\<lparr>returncode = 0, stdout = ''Junction created'', stderr = []\<rparr>, fs')))\<rparr>"

text \<open>A preset file with four presets.\<close>

definition st_presets :: storage where
  "st_presets =
     \<lparr>presets_file = Some
        [(''P'', [''ghost'', ''ModA'', ''modb.esp'']),
         (''Q'', [''ModA'']),
         (''D'', [''modb.esp'', ''modb.esp'']),
         (''E'', [])],
      writable = True\<rparr>"

text \<open>\<open>fs_linked\<close> after \<open>modb.esp\<close> was linked into the game directory.\<close>

definition fs_modb_linked :: filesystem where
  "fs_modb_linked =
     AList.update [''game'', ''modb.esp''] (Symlink [''mods'', ''modb.esp'']) fs_linked"

text \<open>A filter written with a space after the comma, and a source with two files.\<close>

definition cfg_esp_pak :: config where
  "cfg_esp_pak = \<lparr>mods_source_dir = [''mods''], game_mods_dir = [''game''],
                  mod_extensions = Some ''esp, .pak''\<rparr>"

definition fs_pak :: filesystem where
  "fs_pak =
     [([''mods''], Directory),
      ([''game''], Directory),
      ([''mods'', ''x.pak''], RegularFile),
      ([''mods'', ''y.esp''], RegularFile)]"

text \<open>The filter \<open>.esp\<close> and a source with a directory and three files.\<close>

definition cfg_dot_esp :: config where
  "cfg_dot_esp = \<lparr>mods_source_dir = [''mods''], game_mods_dir = [''game''],
                  mod_extensions = Some ''.esp''\<rparr>"

definition fs_ext :: filesystem where
  "fs_ext =
     [([''mods''], Directory),
      ([''game''], Directory),
      ([''mods'', ''x.txt''], RegularFile),
      ([''mods'', ''x.esp''], RegularFile),
      ([''mods'', ''foo.bar''], Directory),
      ([''mods'', ''x.ESP''], RegularFile)]"

section \<open>Facts about the filesystem queries\<close>

lemma stat_unfold:
  "stat fs p =
     (case lstat fs p of
        None \<Rightarrow> None
      | Some (Symlink t) \<Rightarrow> stat_fuel 40 fs t
      | Some RegularFile \<Rightarrow> Some RegularFile
      | Some Directory \<Rightarrow> Some Directory)"
  by (simp only: stat_def stat_fuel.simps)

text \<open>
  \<^verbatim>\<open>p.exists() or p.is_symlink()\<close> holds exactly when something is at \<open>p\<close>, a
  dangling link included.
\<close>

lemma present_iff_lstat:
  "(path_exists fs p \<or> path_is_symlink fs p) = (lstat fs p \<noteq> None)"
  by (cases "lstat fs p";
      simp add: path_exists_def path_is_symlink_def stat_unfold split: node.splits)

lemma absent_iff_lstat:
  "(\<not> path_exists fs p \<and> \<not> path_is_symlink fs p) = (lstat fs p = None)"
  using present_iff_lstat [of fs p] by blast

lemma real_dir_iff:
  "(path_is_dir fs p \<and> \<not> path_is_symlink fs p) = (lstat fs p = Some Directory)"
  by (cases "lstat fs p";
      simp add: path_is_dir_def path_is_symlink_def stat_unfold split: node.splits)

lemma lstat_delete: "lstat (AList.delete p fs) q = (if q = p then None else lstat fs q)"
  by (simp add: lstat_def delete_conv')

lemma lstat_update: "lstat (AList.update p nd fs) q = (if q = p then Some nd else lstat fs q)"
  by (simp add: lstat_def update_conv')

lemma file_not_dir: "path_is_file fs p \<Longrightarrow> \<not> path_is_dir fs p"
  by (simp add: path_is_file_def path_is_dir_def)

lemma file_or_dir_exists: "path_is_file fs p \<or> path_is_dir fs p \<Longrightarrow> path_exists fs p"
  by (auto simp: path_is_file_def path_is_dir_def path_exists_def)

section \<open>Creating and removing a link\<close>

text \<open>
  Claim C6. \<open>mklink\<close> checks the destination first: it answers
  \<open>Target already exists\<close> exactly when the destination exists or is a link (a dangling
  one too), whatever the source is, and \<open>Source not found\<close> exactly when the destination
  is free and the source does not exist. When both conditions hold, the first is reported.
  In both cases nothing is changed.
\<close>

theorem mklink_precondition_order:
  "(mklink h source dst fs = ((False, Target_already_exists dst), fs))
     = (path_exists fs dst \<or> path_is_symlink fs dst) \<and>
   (mklink h source dst fs = ((False, Source_not_found source), fs))
     = (\<not> (path_exists fs dst \<or> path_is_symlink fs dst) \<and> \<not> path_exists fs source)"
  by (auto simp: mklink_def split: prod.splits sum.splits)

text \<open>
  In \<open>fs_linked\<close> the destination \<open>game/old.esp\<close> is a dangling link and its source
  is missing: the existing target is what is reported.
\<close>

theorem mklink_precondition_order_witness:
  "path_is_symlink fs_linked [''game'', ''old.esp''] \<and>
   \<not> path_exists fs_linked [''game'', ''old.esp''] \<and>
   \<not> path_exists fs_linked [''mods'', ''old.esp''] \<and>
   mklink posix [''mods'', ''old.esp''] [''game'', ''old.esp''] fs_linked
     = ((False, Target_already_exists [''game'', ''old.esp'']), fs_linked)"
proof -
  have l: "path_is_symlink fs_linked [''game'', ''old.esp'']"
    by code_simp
  have d: "\<not> path_exists fs_linked [''game'', ''old.esp'']"
    by code_simp
  have s: "\<not> path_exists fs_linked [''mods'', ''old.esp'']"
    by code_simp
  from l mklink_precondition_order [of posix "[''mods'', ''old.esp'']" "[''game'', ''old.esp'']" fs_linked]
  have "mklink posix [''mods'', ''old.esp''] [''game'', ''old.esp''] fs_linked
     = ((False, Target_already_exists [''game'', ''old.esp'']), fs_linked)"
    by blast
  with l d s show ?thesis by blast
qed

text \<open>
  Claim C7. \<open>unlink_path\<close> answers \<open>Already removed\<close> exactly when nothing is at the
  path, not even a dangling link. On a real directory it only tries to remove an empty
  directory: with something inside it answers \<open>Not a link or not empty\<close> and changes
  nothing. On a file or a link (a dangling one too) it succeeds, and the filesystem
  afterwards differs from the one before in that single entry only.
\<close>

theorem unlink_path_cases:
  "(unlink_path p fs = ((False, Already_removed), fs)) = (lstat fs p = None) \<and>
   (lstat fs p = Some Directory \<longrightarrow>
      unlink_path p fs =
        (if children fs p = [] then ((True, OK), AList.delete p fs)
         else ((False, Not_a_link_or_not_empty), fs))) \<and>
   (lstat fs p = Some RegularFile \<or> (\<exists>t. lstat fs p = Some (Symlink t)) \<longrightarrow>
      unlink_path p fs = ((True, OK), AList.delete p fs)) \<and>
   (\<forall>q. lstat (AList.delete p fs) q = (if q = p then None else lstat fs q))"
proof (intro conjI)
  show "(unlink_path p fs = ((False, Already_removed), fs)) = (lstat fs p = None)"
    by (cases "lstat fs p")
       (auto simp: unlink_path_def absent_iff_lstat real_dir_iff os_rmdir_def os_unlink_def
             split: node.splits sum.splits)
  show "lstat fs p = Some Directory \<longrightarrow>
      unlink_path p fs =
        (if children fs p = [] then ((True, OK), AList.delete p fs)
         else ((False, Not_a_link_or_not_empty), fs))"
    by (auto simp: unlink_path_def absent_iff_lstat real_dir_iff os_rmdir_def)
  show "lstat fs p = Some RegularFile \<or> (\<exists>t. lstat fs p = Some (Symlink t)) \<longrightarrow>
      unlink_path p fs = ((True, OK), AList.delete p fs)"
    by (auto simp: unlink_path_def absent_iff_lstat real_dir_iff os_unlink_def)
  show "\<forall>q. lstat (AList.delete p fs) q = (if q = p then None else lstat fs q)"
    by (simp add: lstat_delete)
qed

text \<open>
  In \<open>fs_real\<close> the destination \<open>game/RealMod\<close> is a real directory holding a file:
  removal is refused and the filesystem stays as it was. In \<open>fs_linked\<close> the dangling
  link \<open>game/old.esp\<close> is removed.
\<close>

theorem unlink_path_cases_witness:
  "lstat fs_real [''game'', ''RealMod''] = Some Directory \<and>
   children fs_real [''game'', ''RealMod''] = [''data.pak''] \<and>
   unlink_path [''game'', ''RealMod''] fs_real = ((False, Not_a_link_or_not_empty), fs_real) \<and>
   lstat fs_linked [''game'', ''old.esp''] = Some (Symlink [''mods'', ''old.esp'']) \<and>
   unlink_path [''game'', ''old.esp''] fs_linked
     = ((True, OK), AList.delete [''game'', ''old.esp''] fs_linked)"
proof -
  have d: "lstat fs_real [''game'', ''RealMod''] = Some Directory"
    by (simp add: lstat_def fs_real_def)
  have c: "children fs_real [''game'', ''RealMod''] = [''data.pak'']"
    by (simp add: children_def fs_real_def)
  have l: "lstat fs_linked [''game'', ''old.esp''] = Some (Symlink [''mods'', ''old.esp''])"
    by (simp add: lstat_def fs_linked_def)
  from d c unlink_path_cases [of "[''game'', ''RealMod'']" fs_real]
  have 1: "unlink_path [''game'', ''RealMod''] fs_real
             = ((False, Not_a_link_or_not_empty), fs_real)"
    by simp
  from l unlink_path_cases [of "[''game'', ''old.esp'']" fs_linked]
  have 2: "unlink_path [''game'', ''old.esp''] fs_linked
             = ((True, OK), AList.delete [''game'', ''old.esp''] fs_linked)"
    by blast
  from d c l 1 2 show ?thesis by blast
qed

section \<open>The catalog: what \<open>discover_mods\<close> returns\<close>

lemma discover_loop_mem:
  "m \<in> set (discover_loop fs dst sh exts ps) \<Longrightarrow>
     \<exists>p \<in> set ps. (path_is_file fs p \<or> path_is_dir fs p) \<and>
                   m = mod_at fs dst p (path_is_dir fs p)"
  by (induction ps) (auto split: if_splits simp: file_not_dir)

lemma discover_loop_filter:
  "discover_loop fs dst sh exts ps =
     map (\<lambda>p. mod_at fs dst p (path_is_dir fs p)) (filter (included fs sh exts) ps)"
  by (induction ps) (auto simp: included_def file_not_dir)

text \<open>
  A list sorted by a pair of a flag and a key is the entries without the flag followed
  by the entries with it, each part sorted by the key.
\<close>

lemma sorted_pairs_partition:
  "sorted (map (\<lambda>x. (b x, k x)) xs) \<Longrightarrow>
     xs = filter (\<lambda>x. \<not> b x) xs @ filter b xs \<and>
     sorted (map k (filter (\<lambda>x. \<not> b x) xs)) \<and> sorted (map k (filter b xs))"
proof (induction xs)
  case Nil
  then show ?case by simp
next
  case (Cons x xs)
  then have le: "\<forall>y \<in> set xs. (b x, k x) \<le> (b y, k y)"
    and srt: "sorted (map (\<lambda>x. (b x, k x)) xs)"
    by simp_all
  note IH = Cons.IH [OF srt]
  show ?case
  proof (cases "b x")
    case True
    with le have all: "\<forall>y \<in> set xs. b y \<and> k x \<le> k y"
      by (auto simp: less_eq_prod_def)
    then have "filter (\<lambda>x. \<not> b x) xs = []" and "filter b xs = xs"
      by (simp_all add: filter_empty_conv filter_id_conv)
    with True IH all show ?thesis by simp
  next
    case False
    with le have "\<forall>y \<in> set xs. \<not> b y \<longrightarrow> k x \<le> k y"
      by (auto simp: less_eq_prod_def)
    with False IH show ?thesis by auto
  qed
qed

lemma iterdir_names:
  "iterdir fs d = Inr ps \<Longrightarrow> p \<in> set ps \<Longrightarrow> p = d @ [path_name p]"
  by (auto simp: iterdir_def path_name_def split: if_splits)

lemma discover_mods_eq:
  assumes "discover_mods cfg fs = Inr items"
  shows "\<exists>ps. set ps \<subseteq> {p. p = mods_source_dir cfg @ [path_name p]} \<and>
           items = discover_loop fs (game_mods_dir cfg) (fst (parse_extensions cfg))
                     (snd (parse_extensions cfg)) (sort_entries fs ps)"
proof (cases "path_exists fs (mods_source_dir cfg)")
  case False
  with assms have "items = []"
    by (auto simp: discover_mods_def Let_def split: prod.splits)
  then show ?thesis
    by (intro exI [of _ "[]"]) (simp add: sort_entries_def)
next
  case True
  with assms obtain ps where it: "iterdir fs (mods_source_dir cfg) = Inr ps"
    and items: "items = discover_loop fs (game_mods_dir cfg) (fst (parse_extensions cfg))
                     (snd (parse_extensions cfg)) (sort_entries fs ps)"
    by (auto simp: discover_mods_def Let_def split: prod.splits sum.splits)
  from it have "set ps \<subseteq> {p. p = mods_source_dir cfg @ [path_name p]}"
    using iterdir_names by blast
  with items show ?thesis by blast
qed

lemma discover_mods_item:
  assumes "discover_mods cfg fs = Inr items" and "m \<in> set items"
  shows "src m = mods_source_dir cfg @ [name m]"
    and "dest m = game_mods_dir cfg @ [name m]"
    and "installed m \<longleftrightarrow> lstat fs (game_mods_dir cfg @ [name m]) \<noteq> None"
    and "is_dir m \<longleftrightarrow> path_is_dir fs (src m)"
    and "\<not> is_dir m \<longleftrightarrow> path_is_file fs (src m)"
    and "path_exists fs (src m)"
proof -
  from discover_mods_eq [OF assms(1)] obtain ps
    where ps: "set ps \<subseteq> {p. p = mods_source_dir cfg @ [path_name p]}"
      and items: "items = discover_loop fs (game_mods_dir cfg) (fst (parse_extensions cfg))
                     (snd (parse_extensions cfg)) (sort_entries fs ps)"
    by blast
  from assms(2) items obtain p where p: "p \<in> set (sort_entries fs ps)"
    and fd: "path_is_file fs p \<or> path_is_dir fs p"
    and m: "m = mod_at fs (game_mods_dir cfg) p (path_is_dir fs p)"
    using discover_loop_mem by blast
  from p ps have pn: "p = mods_source_dir cfg @ [path_name p]"
    by (auto simp: sort_entries_def)
  from m have fields: "name m = path_name p" "src m = p"
    "dest m = game_mods_dir cfg @ [path_name p]" "is_dir m = path_is_dir fs p"
    "installed m = (path_exists fs (game_mods_dir cfg @ [path_name p]) \<or>
                    path_is_symlink fs (game_mods_dir cfg @ [path_name p]))"
    by (simp_all add: mod_at_def Let_def)
  show "src m = mods_source_dir cfg @ [name m]" using pn fields by simp
  show "dest m = game_mods_dir cfg @ [name m]" using fields by simp
  show "installed m \<longleftrightarrow> lstat fs (game_mods_dir cfg @ [name m]) \<noteq> None"
    using fields present_iff_lstat by simp
  show "is_dir m \<longleftrightarrow> path_is_dir fs (src m)" using fields by simp
  show "\<not> is_dir m \<longleftrightarrow> path_is_file fs (src m)" using fields fd file_not_dir by auto
  show "path_exists fs (src m)" using fields fd file_or_dir_exists by simp
qed

lemma discover_mods_sorted:
  assumes "discover_mods cfg fs = Inr items"
  shows "sorted (map (\<lambda>m. (\<not> is_dir m, lower (name m))) items)"
proof -
  from discover_mods_eq [OF assms] obtain ps
    where items: "items = discover_loop fs (game_mods_dir cfg) (fst (parse_extensions cfg))
                     (snd (parse_extensions cfg)) (sort_entries fs ps)"
    by blast
  let ?key = "\<lambda>x. (path_is_file fs x, lower (path_name x))"
  let ?inc = "included fs (fst (parse_extensions cfg)) (snd (parse_extensions cfg))"
  have "map (\<lambda>m. (\<not> is_dir m, lower (name m))) items =
        map ?key (filter ?inc (sort_entries fs ps))"
    unfolding items discover_loop_filter
    by (auto simp: mod_at_def Let_def included_def file_not_dir split: if_splits)
  moreover have "sorted (map ?key (sort_entries fs ps))"
    by (simp add: sort_entries_def)
  ultimately show ?thesis
    by (simp add: sorted_filter)
qed

text \<open>
  Every entry of the catalog has a source that exists when the catalog is taken (the
  loop keeps only what is a file or a directory), so against the filesystem the catalog
  was taken from \<open>list_broken_links\<close> finds nothing.
\<close>

lemma list_broken_links_Nil:
  assumes "discover_mods cfg fs = Inr items"
  shows "list_broken_links cfg fs = Inr []"
  using assms discover_mods_item(6) [OF assms]
  by (simp add: list_broken_links_def filter_empty_conv)

text \<open>
  Claim C9. When the source directory does not exist, and when it is a directory with
  nothing in it, \<open>discover_mods\<close> returns the empty list and raises nothing.
\<close>

theorem discover_absent_or_empty:
  "(\<not> path_exists fs (mods_source_dir cfg) \<longrightarrow> discover_mods cfg fs = Inr []) \<and>
   (path_is_dir fs (mods_source_dir cfg) \<and> children fs (mods_source_dir cfg) = []
      \<longrightarrow> discover_mods cfg fs = Inr [])"
  by (auto simp: discover_mods_def Let_def iterdir_def sort_entries_def path_is_dir_def
                 path_exists_def split: prod.splits)

text \<open>In the empty filesystem the source is absent; in \<open>fs_empty\<close> it is an empty directory.\<close>

theorem discover_absent_or_empty_witness:
  "\<not> path_exists [] (mods_source_dir cfg_esp) \<and>
   discover_mods cfg_esp [] = Inr [] \<and>
   path_is_dir fs_empty (mods_source_dir cfg_esp) \<and>
   children fs_empty (mods_source_dir cfg_esp) = [] \<and>
   discover_mods cfg_esp fs_empty = Inr []"
proof -
  have a: "\<not> path_exists [] (mods_source_dir cfg_esp)"
    by code_simp
  have d: "path_is_dir fs_empty (mods_source_dir cfg_esp)"
    by code_simp
  have c: "children fs_empty (mods_source_dir cfg_esp) = []"
    by code_simp
  from a discover_absent_or_empty [of "[]" cfg_esp]
  have 1: "discover_mods cfg_esp [] = Inr []" by blast
  from d c discover_absent_or_empty [of fs_empty cfg_esp]
  have 2: "discover_mods cfg_esp fs_empty = Inr []" by blast
  from a d c 1 2 show ?thesis by blast
qed

text \<open>
  The half of the state rule that holds of the code. For every entry of the catalog,
  its source is the source directory joined with its name, its destination is the game
  directory joined with its name, and it is marked installed exactly when something (a
  dangling link included) is at that destination; it is not installed exactly when
  nothing is there.
\<close>

lemma discover_installed:
  assumes "discover_mods cfg fs = Inr items"
  shows "\<forall>m \<in> set items.
            src m = mods_source_dir cfg @ [name m] \<and>
            dest m = game_mods_dir cfg @ [name m] \<and>
            installed m = (lstat fs (game_mods_dir cfg @ [name m]) \<noteq> None) \<and>
            (\<not> installed m) = (lstat fs (game_mods_dir cfg @ [name m]) = None)"
proof (intro conjI ballI)
  fix m assume m: "m \<in> set items"
  show "src m = mods_source_dir cfg @ [name m]"
    by (rule discover_mods_item(1) [OF assms m])
  show "dest m = game_mods_dir cfg @ [name m]"
    by (rule discover_mods_item(2) [OF assms m])
  show i: "installed m = (lstat fs (game_mods_dir cfg @ [name m]) \<noteq> None)"
    by (rule discover_mods_item(3) [OF assms m])
  then show "(\<not> installed m) = (lstat fs (game_mods_dir cfg @ [name m]) = None)"
    by simp
qed


text \<open>
  Claim C2, as the code has it. The sort key is \<open>(is_file, lowercased name)\<close> in
  ascending order, and \<open>False\<close> sorts before \<open>True\<close>: the catalog is all its directory
  entries followed by all its file entries, each part in the order of the lowercased
  names; an entry is a directory entry exactly when its source is a directory, and a
  file entry exactly when its source is a file.
\<close>

theorem discover_order:
  assumes "discover_mods cfg fs = Inr items"
  shows "items = [m \<leftarrow> items. is_dir m] @ [m \<leftarrow> items. \<not> is_dir m] \<and>
         sorted (map (\<lambda>m. lower (name m)) [m \<leftarrow> items. is_dir m]) \<and>
         sorted (map (\<lambda>m. lower (name m)) [m \<leftarrow> items. \<not> is_dir m]) \<and>
         (\<forall>m \<in> set items. is_dir m = path_is_dir fs (src m) \<and>
                           (\<not> is_dir m) = path_is_file fs (src m))"
proof -
  from sorted_pairs_partition [OF discover_mods_sorted [OF assms]]
  have "items = [m \<leftarrow> items. is_dir m] @ [m \<leftarrow> items. \<not> is_dir m] \<and>
        sorted (map (\<lambda>m. lower (name m)) [m \<leftarrow> items. is_dir m]) \<and>
        sorted (map (\<lambda>m. lower (name m)) [m \<leftarrow> items. \<not> is_dir m])"
    by simp
  moreover have "\<forall>m \<in> set items. is_dir m = path_is_dir fs (src m) \<and>
                           (\<not> is_dir m) = path_is_file fs (src m)"
    using discover_mods_item(4,5) [OF assms] by blast
  ultimately show ?thesis by blast
qed

text \<open>
  The source holds the directory \<open>ModA\<close> and the file \<open>modb.esp\<close>, the filter is
  \<open>esp\<close>: the directory comes first.
\<close>

theorem discover_order_witness:
  "discover_mods cfg_esp fs_mixed = Inr items_mixed \<and>
   [m \<leftarrow> items_mixed. is_dir m] = [item_ModA] \<and>
   [m \<leftarrow> items_mixed. \<not> is_dir m] = [item_modb] \<and>
   items_mixed = [m \<leftarrow> items_mixed. is_dir m] @ [m \<leftarrow> items_mixed. \<not> is_dir m]"
proof -
  have d: "discover_mods cfg_esp fs_mixed = Inr items_mixed"
    by code_simp
  have a: "[m \<leftarrow> items_mixed. is_dir m] = [item_ModA]"
    by code_simp
  have b: "[m \<leftarrow> items_mixed. \<not> is_dir m] = [item_modb]"
    by code_simp
  from discover_order [OF d]
  have "items_mixed = [m \<leftarrow> items_mixed. is_dir m] @ [m \<leftarrow> items_mixed. \<not> is_dir m]"
    by blast
  with d a b show ?thesis by blast
qed

text \<open>
  Claim C2 as the specification states it, files before directories and
  \<open>[modb.esp, ModA]\<close> for this source, does not hold: the catalog is \<open>[ModA, modb.esp]\<close>.
\<close>

theorem discover_order_counterexample:
  "discover_mods cfg_esp fs_mixed = Inr [item_ModA, item_modb] \<and>
   discover_mods cfg_esp fs_mixed \<noteq> Inr [item_modb, item_ModA] \<and>
   is_dir item_ModA \<and> \<not> is_dir item_modb"
  by code_simp

section \<open>Applying a preset\<close>

lemma mods_dict_None: "(mods_dict items nm = None) = (nm \<notin> name ` set items)"
  by (simp add: mods_dict_def map_of_eq_None_iff image_image)

lemma mods_dict_Some: "mods_dict items nm = Some m \<Longrightarrow> m \<in> set items \<and> name m = nm"
  by (auto simp: mods_dict_def dest: map_of_SomeD)

lemma apply_loop_append:
  "apply_loop h mods (xs @ ys) ok fail msgs fs =
     (case apply_loop h mods xs ok fail msgs fs of
        ((ok', fail', msgs'), fs') \<Rightarrow> apply_loop h mods ys ok' fail' msgs' fs')"
  by (induction xs arbitrary: ok fail msgs fs) (auto split: option.splits prod.splits)

lemma os_symlink_Inr:
  "os_symlink source dst b fs = Inr fs' \<Longrightarrow> fs' = AList.update dst (Symlink source) fs"
  by (simp add: os_symlink_def split: if_splits)

lemma mklink_keeps:
  assumes "is_windows h \<longrightarrow> mklink_tool_creates h"
    and "lstat fs p \<noteq> None"
  shows "lstat (snd (mklink h source dst fs)) p \<noteq> None"
proof (cases "is_windows h")
  case True
  with assms have "lstat (snd (run_mklink h (path_is_dir fs source) dst source fs)) p \<noteq> None"
    unfolding mklink_tool_creates_def by blast
  with True assms(2) show ?thesis
    by (auto simp: mklink_def split: prod.splits)
next
  case False
  show ?thesis
  proof (cases "os_symlink source dst (path_is_dir fs source) fs")
    case (Inl e)
    with False assms(2) show ?thesis by (simp add: mklink_def)
  next
    case (Inr fs')
    from os_symlink_Inr [OF Inr] assms(2) have "lstat fs' p \<noteq> None"
      by (simp add: lstat_update)
    with False Inr assms(2) show ?thesis by (simp add: mklink_def)
  qed
qed

lemma mklink_creates:
  assumes "is_windows h \<longrightarrow> mklink_tool_creates h"
    and "mklink h source dst fs = ((True, msg), fs')"
  shows "lstat fs' dst \<noteq> None"
proof (cases "is_windows h")
  case True
  with assms(1) have
    "returncode (fst (run_mklink h (path_is_dir fs source) dst source fs)) = 0 \<longrightarrow>
     lstat (snd (run_mklink h (path_is_dir fs source) dst source fs)) dst \<noteq> None"
    unfolding mklink_tool_creates_def by blast
  with True assms(2) show ?thesis
    by (auto simp: mklink_def split: prod.splits if_splits)
next
  case False
  show ?thesis
  proof (cases "os_symlink source dst (path_is_dir fs source) fs")
    case (Inl e)
    with False assms(2) show ?thesis by (simp add: mklink_def split: if_splits)
  next
    case (Inr fs1)
    with False assms(2) have "fs' = fs1" by (simp add: mklink_def split: if_splits)
    with os_symlink_Inr [OF Inr] show ?thesis by (simp add: lstat_update)
  qed
qed

lemma apply_loop_keeps:
  assumes "is_windows h \<longrightarrow> mklink_tool_creates h"
  shows "lstat fs p \<noteq> None \<Longrightarrow>
         lstat (snd (apply_loop h mods names ok fail msgs fs)) p \<noteq> None"
proof (induction names arbitrary: ok fail msgs fs)
  case Nil
  then show ?case by simp
next
  case (Cons nm names)
  show ?case
  proof (cases "mods nm")
    case None
    with Cons show ?thesis by simp
  next
    case (Some m)
    show ?thesis
    proof (cases "installed m")
      case True
      with Some Cons show ?thesis by simp
    next
      case False
      obtain success msg fs' where r: "mklink h (src m) (dest m) fs = ((success, msg), fs')"
        by (metis prod.exhaust)
      from mklink_keeps [OF assms Cons.prems, of "src m" "dest m"] r
      have "lstat fs' p \<noteq> None" by simp
      from Cons.IH [OF this] Some False r show ?thesis
        by (simp add: apply_mod_def)
    qed
  qed
qed

text \<open>
  The accounts of the loop: every name that is not skipped silently leaves one line in
  the log, in the order of the names, and every name that is in the catalog and not marked
  installed adds one to one of the two counts.
\<close>

lemma apply_loop_accounts:
  "apply_loop h mods names ok fail msgs fs = ((ok', fail', msgs'), fs') \<Longrightarrow>
     map log_name msgs' =
       map log_name msgs @
       [nm \<leftarrow> names. (case mods nm of None \<Rightarrow> True | Some m \<Rightarrow> \<not> installed m)] \<and>
     ok' + fail' =
       ok + fail +
       length [nm \<leftarrow> names. (case mods nm of None \<Rightarrow> False | Some m \<Rightarrow> \<not> installed m)]"
proof (induction names arbitrary: ok fail msgs fs)
  case Nil
  then show ?case by simp
next
  case (Cons nm names)
  show ?case
  proof (cases "mods nm")
    case None
    with Cons.prems have
      "apply_loop h mods names ok fail (msgs @ [Skipped_not_in_source nm]) fs
         = ((ok', fail', msgs'), fs')"
      by simp
    from Cons.IH [OF this] None show ?thesis by simp
  next
    case (Some m)
    show ?thesis
    proof (cases "installed m")
      case True
      with Some Cons.prems have
        "apply_loop h mods names ok fail msgs fs = ((ok', fail', msgs'), fs')"
        by simp
      from Cons.IH [OF this] Some True show ?thesis by simp
    next
      case False
      obtain success msg fs1 where r: "apply_mod h m fs = ((success, msg), fs1)"
        by (metis prod.exhaust)
      with Some False Cons.prems have
        "apply_loop h mods names (if success then ok + 1 else ok)
           (if success then fail else fail + 1) (msgs @ [Outcome nm success msg]) fs1
         = ((ok', fail', msgs'), fs')"
        by simp
      from Cons.IH [OF this] Some False show ?thesis
        by (cases success) simp_all
    qed
  qed
qed

lemma apply_loop_all_installed:
  "\<forall>nm \<in> set names. \<exists>m. mods nm = Some m \<and> installed m \<Longrightarrow>
     apply_loop h mods names ok fail msgs fs = ((ok, fail, msgs), fs)"
  by (induction names) auto

text \<open>
  Claim C4. \<open>apply_preset\<close> takes the catalog once, before the loop, and the loop
  treats the names in their order, each against that catalog: a name that is not in it
  adds the line \<open>Skipped (not in source)\<close> and changes no count; a name whose entry is
  marked installed (a broken link is) adds no line and changes no count; for any other
  name \<open>mklink\<close> is run on the entry's source and destination, its outcome is added to
  the log and one is added to the count of successes or to the count of failures. Over
  the whole loop the log has one line for each name not skipped silently, in order, and
  the counts grow by the number of names tried. When every name of a preset has an entry
  with something at its destination, applying it returns no line and zero counts and
  leaves the filesystem as it was.
\<close>

theorem apply_preset_per_name:
  "(mods nm = None \<longrightarrow>
      apply_loop h mods (nm # names) ok fail msgs fs =
        apply_loop h mods names ok fail (msgs @ [Skipped_not_in_source nm]) fs) \<and>
   (\<forall>m. mods nm = Some m \<and> installed m \<longrightarrow>
      apply_loop h mods (nm # names) ok fail msgs fs =
        apply_loop h mods names ok fail msgs fs) \<and>
   (\<forall>m success msg fs'.
      mods nm = Some m \<and> \<not> installed m \<and>
      mklink h (src m) (dest m) fs = ((success, msg), fs') \<longrightarrow>
      apply_loop h mods (nm # names) ok fail msgs fs =
        apply_loop h mods names
          (if success then ok + 1 else ok) (if success then fail else fail + 1)
          (msgs @ [Outcome nm success msg]) fs') \<and>
   (\<forall>ok' fail' msgs' fs'.
      apply_loop h mods names ok fail msgs fs = ((ok', fail', msgs'), fs') \<longrightarrow>
      map log_name msgs' =
        map log_name msgs @
        [nm \<leftarrow> names. (case mods nm of None \<Rightarrow> True | Some m \<Rightarrow> \<not> installed m)] \<and>
      ok' + fail' =
        ok + fail +
        length [nm \<leftarrow> names. (case mods nm of None \<Rightarrow> False | Some m \<Rightarrow> \<not> installed m)]) \<and>
   (\<forall>items.
      discover_mods cfg fs = Inr items \<and>
      (\<forall>n \<in> set (preset_get (load_presets st) pn).
         \<exists>m \<in> set items. name m = n \<and> lstat fs (dest m) \<noteq> None) \<longrightarrow>
      apply_preset h cfg pn st fs = Inr ((0, 0, []), fs))"
proof (intro conjI allI impI)
  show "apply_loop h mods (nm # names) ok fail msgs fs =
        apply_loop h mods names ok fail (msgs @ [Skipped_not_in_source nm]) fs"
    if "mods nm = None"
    using that by simp
  show "apply_loop h mods (nm # names) ok fail msgs fs =
        apply_loop h mods names ok fail msgs fs"
    if "mods nm = Some m \<and> installed m" for m
    using that by simp
  show "apply_loop h mods (nm # names) ok fail msgs fs =
        apply_loop h mods names
          (if success then ok + 1 else ok) (if success then fail else fail + 1)
          (msgs @ [Outcome nm success msg]) fs'"
    if "mods nm = Some m \<and> \<not> installed m \<and>
        mklink h (src m) (dest m) fs = ((success, msg), fs')" for m success msg fs'
    using that by (simp add: apply_mod_def)
  show "map log_name msgs' =
        map log_name msgs @
        [nm \<leftarrow> names. (case mods nm of None \<Rightarrow> True | Some m \<Rightarrow> \<not> installed m)]"
    if "apply_loop h mods names ok fail msgs fs = ((ok', fail', msgs'), fs')"
    for ok' fail' msgs' fs'
    using apply_loop_accounts [OF that] by blast
  show "ok' + fail' =
        ok + fail +
        length [nm \<leftarrow> names. (case mods nm of None \<Rightarrow> False | Some m \<Rightarrow> \<not> installed m)]"
    if "apply_loop h mods names ok fail msgs fs = ((ok', fail', msgs'), fs')"
    for ok' fail' msgs' fs'
    using apply_loop_accounts [OF that] by blast
  show "apply_preset h cfg pn st fs = Inr ((0, 0, []), fs)"
    if h: "discover_mods cfg fs = Inr items \<and>
        (\<forall>n \<in> set (preset_get (load_presets st) pn).
           \<exists>m \<in> set items. name m = n \<and> lstat fs (dest m) \<noteq> None)" for items
  proof -
    from h have d: "discover_mods cfg fs = Inr items" by blast
    have "\<exists>m. mods_dict items n = Some m \<and> installed m"
      if n: "n \<in> set (preset_get (load_presets st) pn)" for n
    proof -
      from h n obtain m where m: "m \<in> set items" "name m = n" "lstat fs (dest m) \<noteq> None"
        by blast
      then have "mods_dict items n \<noteq> None"
        by (auto simp: mods_dict_None)
      then obtain m' where m': "mods_dict items n = Some m'" by blast
      from mods_dict_Some [OF m'] have in': "m' \<in> set items" and nm': "name m' = n"
        by simp_all
      from discover_mods_item(2) [OF d in'] discover_mods_item(2) [OF d m(1)] m(2) nm'
      have "dest m' = dest m" by simp
      with discover_mods_item(2,3) [OF d in'] m(3) have "installed m'" by simp
      with m' show ?thesis by blast
    qed
    then have "apply_loop h (mods_dict items) (preset_get (load_presets st) pn) 0 0 [] fs
                 = ((0, 0, []), fs)"
      by (intro apply_loop_all_installed) blast
    with d show ?thesis
      by (simp add: apply_preset_def)
  qed
qed

text \<open>
  In \<open>fs_linked\<close>, preset \<open>P\<close> names \<open>ghost\<close>, which the source does not have,
  \<open>ModA\<close>, which is linked, and \<open>modb.esp\<close>, which is not: one line for \<open>ghost\<close>,
  none for \<open>ModA\<close>, one success for \<open>modb.esp\<close>. Preset \<open>Q\<close> names \<open>ModA\<close> only:
  applying it does nothing.
\<close>

theorem apply_preset_per_name_witness:
  "discover_mods cfg_esp fs_linked = Inr items_linked \<and>
   preset_get (load_presets st_presets) ''Q'' = [''ModA''] \<and>
   lstat fs_linked [''game'', ''ModA''] \<noteq> None \<and>
   apply_preset posix cfg_esp ''Q'' st_presets fs_linked = Inr ((0, 0, []), fs_linked) \<and>
   apply_preset posix cfg_esp ''P'' st_presets fs_linked =
     Inr ((1, 0, [Skipped_not_in_source ''ghost'', Outcome ''modb.esp'' True OK]),
          AList.update [''game'', ''modb.esp''] (Symlink [''mods'', ''modb.esp'']) fs_linked)"
proof -
  have d: "discover_mods cfg_esp fs_linked = Inr items_linked"
    by code_simp
  have q: "preset_get (load_presets st_presets) ''Q'' = [''ModA'']"
    by code_simp
  have l: "lstat fs_linked [''game'', ''ModA''] \<noteq> None"
    by code_simp
  have m: "\<forall>n \<in> set (preset_get (load_presets st_presets) ''Q'').
             \<exists>m \<in> set items_linked. name m = n \<and> lstat fs_linked (dest m) \<noteq> None"
    unfolding q using l by (simp add: items_linked_def item_ModA_def)
  from d m apply_preset_per_name [where cfg = cfg_esp and fs = fs_linked and st = st_presets
      and pn = "''Q''" and h = posix]
  have 1: "apply_preset posix cfg_esp ''Q'' st_presets fs_linked = Inr ((0, 0, []), fs_linked)"
    by blast
  have 2: "apply_preset posix cfg_esp ''P'' st_presets fs_linked =
     Inr ((1, 0, [Skipped_not_in_source ''ghost'', Outcome ''modb.esp'' True OK]),
          AList.update [''game'', ''modb.esp''] (Symlink [''mods'', ''modb.esp'']) fs_linked)"
    by code_simp
  from d q l 1 2 show ?thesis by blast
qed

section \<open>A name twice in one preset\<close>

lemma mklink_occupied:
  "lstat fs dst \<noteq> None \<Longrightarrow> mklink h source dst fs = ((False, Target_already_exists dst), fs)"
  by (simp add: mklink_def present_iff_lstat)

lemma windows_host_creates: "mklink_tool_creates windows_host"
  unfolding mklink_tool_creates_def windows_host_def
  by (auto simp: os_symlink_def lstat_update split: sum.splits if_splits)

text \<open>
  Claim C10. The catalog is not taken again inside the loop, so a name that was not
  installed when the catalog was taken is tried at each of its occurrences. When the
  first try succeeds, the second try, after any names in between, finds the destination
  taken: \<open>mklink\<close> answers \<open>Target already exists\<close>, the line is logged as an error,
  the count of failures grows by one and the filesystem is not changed by it. (On a
  Windows host this rests on the tool leaving something at the destination when it
  exits with code 0, and removing nothing.)
\<close>

theorem apply_preset_duplicate_name:
  assumes tool: "is_windows h \<longrightarrow> mklink_tool_creates h"
    and m: "mods nm = Some m"
    and ni: "\<not> installed m"
    and first: "mklink h (src m) (dest m) fs = ((True, msg), fs1)"
    and mid: "apply_loop h mods mid (ok + 1) fail (msgs @ [Outcome nm True msg]) fs1
                = ((ok2, fail2, msgs2), fs2)"
  shows "apply_loop h mods (nm # mid @ nm # rest) ok fail msgs fs =
           apply_loop h mods rest ok2 (fail2 + 1)
             (msgs2 @ [Outcome nm False (Target_already_exists (dest m))]) fs2"
proof -
  have "apply_loop h mods (nm # mid @ nm # rest) ok fail msgs fs =
        apply_loop h mods (mid @ nm # rest) (ok + 1) fail (msgs @ [Outcome nm True msg]) fs1"
    using m ni first by (simp add: apply_mod_def)
  also have "\<dots> = apply_loop h mods (nm # rest) ok2 fail2 msgs2 fs2"
    using mid by (simp add: apply_loop_append)
  finally have step: "apply_loop h mods (nm # mid @ nm # rest) ok fail msgs fs =
        apply_loop h mods (nm # rest) ok2 fail2 msgs2 fs2" .
  have "lstat fs1 (dest m) \<noteq> None"
    by (rule mklink_creates [OF tool first])
  from apply_loop_keeps [OF tool this, of mods mid "ok + 1" fail "msgs @ [Outcome nm True msg]"] mid
  have "lstat fs2 (dest m) \<noteq> None" by simp
  then have "mklink h (src m) (dest m) fs2 = ((False, Target_already_exists (dest m)), fs2)"
    by (rule mklink_occupied)
  with m ni have "apply_loop h mods (nm # rest) ok2 fail2 msgs2 fs2 =
        apply_loop h mods rest ok2 (fail2 + 1)
             (msgs2 @ [Outcome nm False (Target_already_exists (dest m))]) fs2"
    by (simp add: apply_mod_def)
  with step show ?thesis by simp
qed

text \<open>
  Preset \<open>D\<close> names \<open>modb.esp\<close> twice. In \<open>fs_linked\<close> the first try makes the
  link and the second is counted as a failure: one success, one error, on a POSIX host
  and on the Windows host alike.
\<close>

theorem apply_preset_duplicate_name_witness:
  "mods_dict items_linked ''modb.esp'' = Some item_modb \<and>
   \<not> installed item_modb \<and>
   mklink posix (src item_modb) (dest item_modb) fs_linked = ((True, OK), fs_modb_linked) \<and>
   apply_loop posix (mods_dict items_linked) [''modb.esp'', ''modb.esp''] 0 0 [] fs_linked =
     ((1, 1, [Outcome ''modb.esp'' True OK,
              Outcome ''modb.esp'' False (Target_already_exists [''game'', ''modb.esp''])]),
      fs_modb_linked) \<and>
   apply_preset posix cfg_esp ''D'' st_presets fs_linked =
     Inr ((1, 1, [Outcome ''modb.esp'' True OK,
                  Outcome ''modb.esp'' False (Target_already_exists [''game'', ''modb.esp''])]),
          fs_modb_linked) \<and>
   mklink_tool_creates windows_host \<and>
   apply_loop windows_host (mods_dict items_linked) [''modb.esp'', ''modb.esp''] 0 0 [] fs_linked =
     ((1, 1, [Outcome ''modb.esp'' True OK,
              Outcome ''modb.esp'' False (Target_already_exists [''game'', ''modb.esp''])]),
      fs_modb_linked)"
proof -
  have m: "mods_dict items_linked ''modb.esp'' = Some item_modb"
    by code_simp
  have ni: "\<not> installed item_modb"
    by code_simp
  have dm: "dest item_modb = [''game'', ''modb.esp'']"
    by code_simp
  have first: "mklink posix (src item_modb) (dest item_modb) fs_linked
                 = ((True, OK), fs_modb_linked)"
    by code_simp
  have firstw: "mklink windows_host (src item_modb) (dest item_modb) fs_linked
                 = ((True, OK), fs_modb_linked)"
    by code_simp
  have p: "is_windows posix \<longrightarrow> mklink_tool_creates posix"
    by (simp add: posix_def)
  have mid: "apply_loop h (mods_dict items_linked) [] (0 + 1) 0 ([] @ [Outcome ''modb.esp'' True OK])
               fs_modb_linked = ((1, 0, [Outcome ''modb.esp'' True OK]), fs_modb_linked)" for h
    by simp
  from apply_preset_duplicate_name [OF p m ni first mid, of "[]"] dm
  have 1: "apply_loop posix (mods_dict items_linked) [''modb.esp'', ''modb.esp''] 0 0 [] fs_linked =
     ((1, 1, [Outcome ''modb.esp'' True OK,
              Outcome ''modb.esp'' False (Target_already_exists [''game'', ''modb.esp''])]),
      fs_modb_linked)"
    by simp
  have w: "is_windows windows_host \<longrightarrow> mklink_tool_creates windows_host"
    using windows_host_creates by simp
  from apply_preset_duplicate_name [OF w m ni firstw mid, of "[]"] dm
  have 2: "apply_loop windows_host (mods_dict items_linked) [''modb.esp'', ''modb.esp''] 0 0 []
             fs_linked =
     ((1, 1, [Outcome ''modb.esp'' True OK,
              Outcome ''modb.esp'' False (Target_already_exists [''game'', ''modb.esp''])]),
      fs_modb_linked)"
    by simp
  have 3: "apply_preset posix cfg_esp ''D'' st_presets fs_linked =
     Inr ((1, 1, [Outcome ''modb.esp'' True OK,
                  Outcome ''modb.esp'' False (Target_already_exists [''game'', ''modb.esp''])]),
          fs_modb_linked)"
    by code_simp
  from m ni first 1 2 3 windows_host_creates show ?thesis by blast
qed

section \<open>The preset toggle\<close>

lemma installed_set_iff:
  "(n \<in> installed_set items) = (\<exists>m \<in> set items. name m = n \<and> installed m)"
  by (auto simp: installed_set_def)

lemma all_on_catalog:
  assumes "discover_mods cfg fs = Inr items"
  shows "all_on (installed_set items) mods =
           (mods \<noteq> [] \<and>
            (\<forall>n \<in> set mods. \<exists>m \<in> set items.
               name m = n \<and> lstat fs (dest m) \<noteq> None \<and> path_exists fs (src m)))"
proof -
  have "(\<exists>m \<in> set items. name m = n \<and> installed m) =
        (\<exists>m \<in> set items. name m = n \<and> lstat fs (dest m) \<noteq> None \<and> path_exists fs (src m))"
    for n
    using discover_mods_item(2,3,6) [OF assms] by (metis (no_types, lifting))
  then show ?thesis
    by (simp add: all_on_def list_all_iff installed_set_iff)
qed

lemma deactivate_loop_all_installed:
  "\<forall>n \<in> set names. \<exists>m. mods n = Some m \<and> installed m \<Longrightarrow>
     deactivate_loop mods names ok fail msgs fs = ((ok', fail', msgs'), fs') \<Longrightarrow>
     map log_name msgs' = map log_name msgs @ names \<and> ok' + fail' = ok + fail + length names"
proof (induction names arbitrary: ok fail msgs fs)
  case Nil
  then show ?case by simp
next
  case (Cons n names)
  from Cons.prems(1) obtain m where m: "mods n = Some m" "installed m"
    by auto
  obtain success msg fs1 where r: "deactivate_mod m fs = ((success, msg), fs1)"
    by (metis prod.exhaust)
  from Cons.prems(1) have rest: "\<forall>n \<in> set names. \<exists>m. mods n = Some m \<and> installed m"
    by simp
  from Cons.prems(2) m r have
    "deactivate_loop mods names (if success then ok + 1 else ok)
       (if success then fail else fail + 1) (msgs @ [Outcome n success msg]) fs1
     = ((ok', fail', msgs'), fs')"
    by simp
  from Cons.IH [OF rest this] show ?case
    by (cases success) simp_all
qed

lemma mods_dict_installed:
  assumes "discover_mods cfg fs = Inr items"
    and "m \<in> set items" and "installed m"
  shows "\<exists>m'. mods_dict items (name m) = Some m' \<and> installed m'"
proof -
  from assms(2) have "mods_dict items (name m) \<noteq> None"
    by (auto simp: mods_dict_None)
  then obtain m' where m': "mods_dict items (name m) = Some m'" by blast
  from mods_dict_Some [OF m'] have in': "m' \<in> set items" and nm': "name m' = name m"
    by simp_all
  from discover_mods_item(3) [OF assms(1) in'] discover_mods_item(3) [OF assms(1,2)] nm' assms(3)
  have "installed m'" by simp
  with m' show ?thesis by blast
qed

text \<open>
  Claim C3. The toggle is decided against the catalog the menu took, on the filesystem
  as it was then: it reverts exactly when the preset has a member and every member is
  the name of a catalog entry with something at its destination and a source that
  exists (installed and not broken), and it applies otherwise; a preset without members
  is applied, never reverted. When it reverts on the filesystem the catalog was taken
  from, the removal is run on every member: the log has one line for each, in order.
\<close>

theorem toggle_preset_decision:
  assumes "discover_mods cfg fs0 = Inr items"
  shows "toggle_preset h cfg st ps (installed_set items) pn fs =
           (if preset_get ps pn \<noteq> [] \<and>
               (\<forall>n \<in> set (preset_get ps pn). \<exists>m \<in> set items.
                  name m = n \<and> lstat fs0 (dest m) \<noteq> None \<and> path_exists fs0 (src m))
            then (case deactivate_preset cfg pn st fs of
                    Inl e \<Rightarrow> Inl e
                  | Inr ((okc, errc, msgs), fs') \<Rightarrow> Inr (Deactivated okc errc msgs, fs'))
            else (case apply_preset h cfg pn st fs of
                    Inl e \<Rightarrow> Inl e
                  | Inr ((okc, errc, msgs), fs') \<Rightarrow> Inr (Installed okc errc msgs, fs'))) \<and>
         (preset_get ps pn = [] \<longrightarrow>
            toggle_preset h cfg st ps (installed_set items) pn fs =
              (case apply_preset h cfg pn st fs of
                 Inl e \<Rightarrow> Inl e
               | Inr ((okc, errc, msgs), fs') \<Rightarrow> Inr (Installed okc errc msgs, fs'))) \<and>
         (all_on (installed_set items) (preset_get (load_presets st) pn) \<longrightarrow>
            (\<exists>okc errc msgs fs'.
               deactivate_preset cfg pn st fs0 = Inr ((okc, errc, msgs), fs') \<and>
               map log_name msgs = preset_get (load_presets st) pn \<and>
               okc + errc = length (preset_get (load_presets st) pn)))"
proof (intro conjI impI)
  show 1: "toggle_preset h cfg st ps (installed_set items) pn fs =
           (if preset_get ps pn \<noteq> [] \<and>
               (\<forall>n \<in> set (preset_get ps pn). \<exists>m \<in> set items.
                  name m = n \<and> lstat fs0 (dest m) \<noteq> None \<and> path_exists fs0 (src m))
            then (case deactivate_preset cfg pn st fs of
                    Inl e \<Rightarrow> Inl e
                  | Inr ((okc, errc, msgs), fs') \<Rightarrow> Inr (Deactivated okc errc msgs, fs'))
            else (case apply_preset h cfg pn st fs of
                    Inl e \<Rightarrow> Inl e
                  | Inr ((okc, errc, msgs), fs') \<Rightarrow> Inr (Installed okc errc msgs, fs')))"
    unfolding toggle_preset_def Let_def all_on_catalog [OF assms] by simp
  show "toggle_preset h cfg st ps (installed_set items) pn fs =
              (case apply_preset h cfg pn st fs of
                 Inl e \<Rightarrow> Inl e
               | Inr ((okc, errc, msgs), fs') \<Rightarrow> Inr (Installed okc errc msgs, fs'))"
    if "preset_get ps pn = []"
    using that unfolding 1 by simp
  show "\<exists>okc errc msgs fs'.
               deactivate_preset cfg pn st fs0 = Inr ((okc, errc, msgs), fs') \<and>
               map log_name msgs = preset_get (load_presets st) pn \<and>
               okc + errc = length (preset_get (load_presets st) pn)"
    if on: "all_on (installed_set items) (preset_get (load_presets st) pn)"
  proof -
    let ?names = "preset_get (load_presets st) pn"
    have all: "\<forall>n \<in> set ?names. \<exists>m. mods_dict items n = Some m \<and> installed m"
    proof
      fix n assume "n \<in> set ?names"
      with on obtain m where "m \<in> set items" "name m = n" "installed m"
        by (auto simp: all_on_def list_all_iff installed_set_iff)
      with mods_dict_installed [OF assms] show "\<exists>m. mods_dict items n = Some m \<and> installed m"
        by blast
    qed
    obtain okc errc msgs fs' where
      r: "deactivate_loop (mods_dict items) ?names 0 0 [] fs0 = ((okc, errc, msgs), fs')"
      by (metis prod.exhaust)
    from deactivate_loop_all_installed [OF all r]
    have "map log_name msgs = ?names" "okc + errc = length ?names"
      by simp_all
    moreover from assms r have "deactivate_preset cfg pn st fs0 = Inr ((okc, errc, msgs), fs')"
      by (simp add: deactivate_preset_def)
    ultimately show ?thesis by blast
  qed
qed

text \<open>
  In \<open>fs_linked\<close>: preset \<open>Q\<close> (\<open>ModA\<close>, which is linked) is reverted; preset \<open>P\<close>,
  with members that are not installed, is applied; preset \<open>E\<close>, without members, is
  applied and does nothing.
\<close>

theorem toggle_preset_decision_witness:
  "discover_mods cfg_esp fs_linked = Inr items_linked \<and>
   preset_get (load_presets st_presets) ''E'' = [] \<and>
   toggle_preset posix cfg_esp st_presets (load_presets st_presets)
       (installed_set items_linked) ''E'' fs_linked
     = Inr (Installed 0 0 [], fs_linked) \<and>
   toggle_preset posix cfg_esp st_presets (load_presets st_presets)
       (installed_set items_linked) ''Q'' fs_linked
     = Inr (Deactivated 1 0 [Outcome ''ModA'' True OK],
            AList.delete [''game'', ''ModA''] fs_linked) \<and>
   toggle_preset posix cfg_esp st_presets (load_presets st_presets)
       (installed_set items_linked) ''P'' fs_linked
     = Inr (Installed 1 0 [Skipped_not_in_source ''ghost'', Outcome ''modb.esp'' True OK],
            fs_modb_linked)"
proof -
  have d: "discover_mods cfg_esp fs_linked = Inr items_linked"
    by code_simp
  have e: "preset_get (load_presets st_presets) ''E'' = []"
    by code_simp
  have a: "apply_preset posix cfg_esp ''E'' st_presets fs_linked = Inr ((0, 0, []), fs_linked)"
    by code_simp
  from toggle_preset_decision [OF d, where h = posix and st = st_presets
      and ps = "load_presets st_presets" and pn = "''E''" and fs = fs_linked] e
  have "toggle_preset posix cfg_esp st_presets (load_presets st_presets)
          (installed_set items_linked) ''E'' fs_linked =
        (case apply_preset posix cfg_esp ''E'' st_presets fs_linked of
           Inl e \<Rightarrow> Inl e
         | Inr ((okc, errc, msgs), fs') \<Rightarrow> Inr (Installed okc errc msgs, fs'))"
    by blast
  with a have 1: "toggle_preset posix cfg_esp st_presets (load_presets st_presets)
       (installed_set items_linked) ''E'' fs_linked = Inr (Installed 0 0 [], fs_linked)"
    by simp
  have 2: "toggle_preset posix cfg_esp st_presets (load_presets st_presets)
       (installed_set items_linked) ''Q'' fs_linked
     = Inr (Deactivated 1 0 [Outcome ''ModA'' True OK],
            AList.delete [''game'', ''ModA''] fs_linked)"
    by code_simp
  have 3: "toggle_preset posix cfg_esp st_presets (load_presets st_presets)
       (installed_set items_linked) ''P'' fs_linked
     = Inr (Installed 1 0 [Skipped_not_in_source ''ghost'', Outcome ''modb.esp'' True OK],
            fs_modb_linked)"
    by code_simp
  from d e 1 2 3 show ?thesis by blast
qed

text \<open>
  One command may name a preset twice. Both numbers are decided against the catalog
  taken before the command: in \<open>fs_linked\<close> preset \<open>D\<close> (\<open>modb.esp\<close>, not
  installed) is applied at the first number, and applied again at the second, where
  its member is by then installed and skipped.
\<close>

lemma toggle_loop_one_catalog:
  "toggle_loop posix cfg_esp st_presets (load_presets st_presets) [''P'', ''Q'', ''D'', ''E'']
       (installed_set items_linked) [3, 3] fs_linked
     = Inr ([Installed 1 1
               [Outcome ''modb.esp'' True OK,
                Outcome ''modb.esp'' False (Target_already_exists [''game'', ''modb.esp''])],
             Installed 0 0 []],
            fs_modb_linked)"
  by code_simp

section \<open>Saving a preset\<close>

lemma preset_get_update:
  "preset_get (AList.update pn l ps) other = (if other = pn then l else preset_get ps other)"
  by (simp add: preset_get_def update_conv')

text \<open>
  Claim C8, as the code has it. \<open>save_preset_from_installed\<close> takes the members from
  the catalog: the names of the entries marked installed, in catalog order. When there
  is none it answers \<open>No installed mods to save\<close> and leaves the preset file as it was.
  Otherwise it writes the presets with the preset of that name replaced by these
  members, every other preset as it was, and only the write can fail.
\<close>

theorem save_preset_from_installed_cases:
  assumes "list_installed_mods cfg fs = Inr inst"
  shows "save_preset_from_installed cfg pn fs st =
           (if inst = [] then Inr ((False, No_installed_mods_to_save), st)
            else if writable st then
              Inr ((True, Preset_saved pn (length inst)),
                   st\<lparr>presets_file := Some (AList.update pn (map name inst) (load_presets st))\<rparr>)
            else Inl PermissionError) \<and>
         preset_get (AList.update pn (map name inst) (load_presets st)) pn = map name inst \<and>
         (\<forall>other. other \<noteq> pn \<longrightarrow>
            preset_get (AList.update pn (map name inst) (load_presets st)) other =
            preset_get (load_presets st) other)"
  using assms
  by (simp add: save_preset_from_installed_def Let_def save_presets_def preset_get_update)

text \<open>
  In \<open>fs_linked\<close> only \<open>ModA\<close> is installed: saving under the name \<open>P\<close> replaces
  the three members \<open>P\<close> had.
\<close>

theorem save_preset_from_installed_cases_witness:
  "list_installed_mods cfg_esp fs_linked = Inr [item_ModA\<lparr>installed := True\<rparr>] \<and>
   preset_get (load_presets st_presets) ''P'' = [''ghost'', ''ModA'', ''modb.esp''] \<and>
   save_preset_from_installed cfg_esp ''P'' fs_linked st_presets =
     Inr ((True, Preset_saved ''P'' 1),
          st_presets\<lparr>presets_file :=
            Some (AList.update ''P'' [''ModA''] (load_presets st_presets))\<rparr>) \<and>
   preset_get (AList.update ''P'' [''ModA''] (load_presets st_presets)) ''P'' = [''ModA'']"
proof -
  have i: "list_installed_mods cfg_esp fs_linked = Inr [item_ModA\<lparr>installed := True\<rparr>]"
    by code_simp
  have p: "preset_get (load_presets st_presets) ''P'' = [''ghost'', ''ModA'', ''modb.esp'']"
    by code_simp
  have w: "writable st_presets"
    by code_simp
  have n: "map name [item_ModA\<lparr>installed := True\<rparr>] = [''ModA'']"
    by code_simp
  from save_preset_from_installed_cases [OF i, of "''P''" st_presets] w n
  have "save_preset_from_installed cfg_esp ''P'' fs_linked st_presets =
     Inr ((True, Preset_saved ''P'' 1),
          st_presets\<lparr>presets_file :=
            Some (AList.update ''P'' [''ModA''] (load_presets st_presets))\<rparr>) \<and>
   preset_get (AList.update ''P'' [''ModA''] (load_presets st_presets)) ''P'' = [''ModA'']"
    by simp
  with i p show ?thesis by blast
qed

text \<open>
  Claim C8 as the specification states it does not hold: in \<open>fs_mixed\<close> nothing is
  installed, the preset file can be written, and the save fails all the same, with
  \<open>No installed mods to save\<close>; the preset \<open>P\<close> is not overwritten.
\<close>

theorem save_preset_counterexample:
  "writable st_presets \<and>
   save_preset_from_installed cfg_esp ''P'' fs_mixed st_presets =
     Inr ((False, No_installed_mods_to_save), st_presets) \<and>
   preset_get (load_presets st_presets) ''P'' = [''ghost'', ''ModA'', ''modb.esp'']"
  by code_simp

section \<open>The extension filter\<close>

lemma parse_extensions_show_all:
  "fst (parse_extensions cfg) =
     (strip (case mod_extensions cfg of None \<Rightarrow> [] | Some s \<Rightarrow> s) = [])"
  by (simp add: parse_extensions_def Let_def)

text \<open>
  What the catalog holds, by source path: the entries of the source directory that are
  files passing the filter, or directories.
\<close>

lemma discover_mods_sources:
  assumes "discover_mods cfg fs = Inr items"
    and "iterdir fs (mods_source_dir cfg) = Inr ps"
  shows "src ` set items =
           {p \<in> set ps. included fs (fst (parse_extensions cfg)) (snd (parse_extensions cfg)) p}"
proof -
  from assms(2) have "path_exists fs (mods_source_dir cfg)"
    by (auto simp: iterdir_def path_is_dir_def path_exists_def split: if_splits)
  with assms have "items = discover_loop fs (game_mods_dir cfg) (fst (parse_extensions cfg))
                     (snd (parse_extensions cfg)) (sort_entries fs ps)"
    by (auto simp: discover_mods_def Let_def split: prod.splits)
  then have "map src items =
             filter (included fs (fst (parse_extensions cfg)) (snd (parse_extensions cfg)))
               (sort_entries fs ps)"
    by (simp add: discover_loop_filter mod_at_def Let_def comp_def)
  then have "set (map src items) =
             {p \<in> set ps. included fs (fst (parse_extensions cfg)) (snd (parse_extensions cfg)) p}"
    by (simp add: sort_entries_def)
  then show ?thesis by simp
qed

text \<open>
  The parts of the filter rule that hold of the code: every directory of the source is in the
  catalog, whatever the filter; with a filter string that is blank or unset every file
  is; with any other filter string a file is in the catalog exactly when its lowercased
  suffix is one of the entries \<open>parse_extensions\<close> computes.
\<close>

lemma discover_mods_filter:
  assumes "discover_mods cfg fs = Inr items"
    and "iterdir fs (mods_source_dir cfg) = Inr ps"
    and "p \<in> set ps"
  shows "path_is_dir fs p \<Longrightarrow> p \<in> src ` set items"
    and "path_is_file fs p \<Longrightarrow> fst (parse_extensions cfg) \<Longrightarrow> p \<in> src ` set items"
    and "path_is_file fs p \<Longrightarrow> \<not> fst (parse_extensions cfg) \<Longrightarrow>
           (p \<in> src ` set items) =
           (lower (suffix (path_name p)) \<in> set (snd (parse_extensions cfg)))"
  unfolding discover_mods_sources [OF assms(1,2)]
  using assms(3) by (auto simp: included_def file_not_dir)

text \<open>The example of the filter rule: the filter \<open>.esp\<close> keeps the directory and both \<open>esp\<close> files.\<close>

lemma extension_filter_example:
  "map_sum id (map name) (discover_mods cfg_dot_esp fs_ext) = Inr [''foo.bar'', ''x.esp'', ''x.ESP'']"
  by code_simp

lemma lower_char_dot: "lower_char CHR ''.'' = CHR ''.''"
  by (simp add: lower_char_def)

lemma strip_keeps_dot:
  "startswith e ''.'' \<Longrightarrow> startswith (strip (lower e)) ''.''"
proof -
  assume "startswith e ''.''"
  then obtain r where e: "e = CHR ''.'' # r"
    by (cases e) (auto simp: startswith_def)
  have ns: "\<not> is_space CHR ''.''"
    by (simp add: is_space_def)
  have "strip (lower e) = rev (dropWhile is_space (rev (lower r) @ [CHR ''.'']))"
    using ns by (simp add: e strip_def lower_def lower_char_dot)
  also have "\<dots> = CHR ''.'' # rev (dropWhile is_space (rev (lower r)))"
    using ns by (simp add: dropWhile_append3)
  finally show ?thesis
    by (simp add: startswith_def)
qed

text \<open>
  Where no entry of the filter string has whitespace before a leading dot, the entries
  \<open>parse_extensions\<close> computes are the entries of the specification's filter.
\<close>

lemma parse_extensions_agrees:
  assumes "mod_extensions cfg = Some raw"
    and "strip raw \<noteq> []"
    and "\<forall>e \<in> set (split CHR '','' (strip raw)).
           startswith (strip (lower e)) ''.'' \<longrightarrow> startswith e ''.''"
  shows "parse_extensions cfg = (False, spec_extension_filter raw)"
proof -
  have "(if startswith e ''.'' then strip (lower e) else ''.'' @ strip (lower e)) =
        spec_normalize_extension e"
    if "e \<in> set (split CHR '','' (strip raw))" for e
    using that assms(3) strip_keeps_dot [of e]
    by (auto simp: spec_normalize_extension_def Let_def)
  then have "[if startswith e ''.'' then strip (lower e) else ''.'' @ strip (lower e).
               e \<leftarrow> split CHR '','' (strip raw), strip e \<noteq> []] =
             spec_extension_filter raw"
    unfolding spec_extension_filter_def
    by (intro arg_cong [where f = concat] map_cong refl) simp
  with assms(1,2) show ?thesis
    by (simp add: parse_extensions_def Let_def)
qed

text \<open>
  Claim C5 at the filter string \<open>esp, .pak\<close>. The entry after the comma begins with a
  space; \<open>parse_extensions\<close> looks for the leading dot before it strips the entry, finds
  none and adds one: the entry becomes \<open>..pak\<close>, where the specification's filter has
  \<open>.pak\<close>. The file \<open>x.pak\<close>, whose extension \<open>.pak\<close> is in the filter as written, is
  left out of the catalog.
\<close>

theorem extension_filter_space_before_dot:
  "parse_extensions cfg_esp_pak = (False, [''.esp'', ''..pak'']) \<and>
   spec_extension_filter ''esp, .pak'' = [''.esp'', ''.pak''] \<and>
   iterdir fs_pak (mods_source_dir cfg_esp_pak) = Inr [[''mods'', ''x.pak''], [''mods'', ''y.esp'']] \<and>
   path_is_file fs_pak [''mods'', ''x.pak''] \<and>
   lower (suffix ''x.pak'') = ''.pak'' \<and>
   map_sum id (map name) (discover_mods cfg_esp_pak fs_pak) = Inr [''y.esp'']"
  by code_simp

end
